theory Spec2Isabelle
  imports Main "HOL-Library.Word"
begin

section \<open>The per-method call acceptor \<open>service_unary_call_data\<close>\<close>

text \<open>
  A shallow embedding of \<^verbatim>\<open>cpp/inc/bond/ext/grpc/detail/service_call_data.h\<close>.
  The class holds the state for receiving the calls of one method: its constructor and
  every successful \<^verbatim>\<open>invoke\<close> create a new \<^verbatim>\<open>unary_call_impl\<close> and ask the service
  to receive the next call into it; a successful \<^verbatim>\<open>invoke\<close> first hands the call just
  received to the thread pool.

  The member functions mutate the object and call its collaborators (the service, the
  thread pool, the user callback, operator \<^verbatim>\<open>new\<close>). The model threads an explicit state
  through them: the object's fields, the number of \<^verbatim>\<open>unary_call_impl\<close> objects created so
  far, the calls made to the collaborators in the order they were made, and the tasks the
  thread pool has been given and has not run yet. A failed assertion, a null pointer
  dereference and a call of an empty \<^verbatim>\<open>std::function\<close> are error results.
\<close>

subsection \<open>Data\<close>

text \<open>
  A pointer (raw, \<^verbatim>\<open>unique_ptr\<close>, \<^verbatim>\<open>shared_ptr\<close>, \<^verbatim>\<open>intrusive_ptr\<close>) is \<open>None\<close> when
  null and \<open>Some a\<close> when it points to the object \<open>a\<close>. A \<^verbatim>\<open>unary_call_impl\<close> object is
  named by the ordinal of the \<^verbatim>\<open>new\<close> expression that created it, so two of them are the
  same object exactly when they have the same name.
\<close>

type_synonym ptr = "nat option"

text \<open>\<^verbatim>\<open>std::function<void(unary_call<TRequest, TResponse>)>\<close>: empty, or a target.\<close>

type_synonym callback = "nat option"

text \<open>
  The addresses \<^verbatim>\<open>&p->context()\<close>, \<^verbatim>\<open>&p->request()\<close> and \<^verbatim>\<open>&p->responder()\<close> of the
  members of the \<^verbatim>\<open>unary_call_impl\<close> object \<open>p\<close>.
\<close>

datatype uc_member = Context_of nat | Request_of nat | Responder_of nat

text \<open>\<^verbatim>\<open>unary_call<TRequest, TResponse> { std::move(receivedCall) }\<close>\<close>

datatype unary_call = Unary_call ptr

text \<open>The closure \<^verbatim>\<open>[this, receivedCall]() mutable { ... }\<close> with its two captures.\<close>

datatype task = Task (task_this: nat) (task_receivedCall: ptr)

text \<open>The calls the object makes to its collaborators.\<close>

datatype event =
    New_uc_impl nat
    \<comment> \<open>\<^verbatim>\<open>new uc_impl\<close>, with the object created\<close>
  | Service_queue_receive nat "32 word" uc_member uc_member uc_member ptr nat
    \<comment> \<open>\<^verbatim>\<open>_service.queue_receive(methodIndex, context, request, responder, cq, tag)\<close>,
       with the service it is called on first\<close>
  | ThreadPool_schedule nat task
    \<comment> \<open>\<^verbatim>\<open>_threadPool->schedule(task)\<close>, with the pool it is called on first\<close>
  | Cb_call nat unary_call
    \<comment> \<open>\<^verbatim>\<open>_cb(unary_call)\<close>, with the target of the callback first\<close>

datatype assertion =
    Assert_cq
  | Assert_threadPool
  | Assert_cb
  | Assert_not_receivedCall

datatype error =
    Assertion_failed assertion
  | Null_dereference
  | Bad_function_call

text \<open>
  The data members of the class, lines 121 to 133. The \<^verbatim>\<open>int\<close> method index is a
  32-bit word (read as a signed number by \<open>sint\<close>); the class does no arithmetic on it.
\<close>

record service_unary_call_data =
  service :: nat
  methodIndex :: "32 word"
  cq :: ptr
  threadPool :: ptr
  cb :: callback
  receivedCall :: ptr

record state =
  this_addr :: nat
  obj :: service_unary_call_data
  uc_impl_created :: nat
  events :: "event list"
  pending_tasks :: "task list"

subsection \<open>Collaborators\<close>

text \<open>
  Modelled from the spec: the macro \<^verbatim>\<open>BOOST_ASSERT\<close> of \<^verbatim>\<open>boost/assert.hpp\<close>, which is
  not part of the sources. A violated assertion is a programmer error and is fatal, not a
  recoverable error: the member function stops there with the error.
\<close>

definition BOOST_ASSERT :: "bool \<Rightarrow> assertion \<Rightarrow> error + unit" where
  "BOOST_ASSERT c a = (if c then Inr () else Inl (Assertion_failed a))"

text \<open>\<^verbatim>\<open>new uc_impl\<close> creates an object that did not exist before.\<close>

definition new_uc_impl :: "state \<Rightarrow> nat \<times> state" where
  "new_uc_impl s =
     (uc_impl_created s,
      s\<lparr>uc_impl_created := Suc (uc_impl_created s),
        events := events s @ [New_uc_impl (uc_impl_created s)]\<rparr>)"

text \<open>
  Modelled from the spec: \<^verbatim>\<open>service<TThreadPool>::queue_receive\<close> of
  \<^verbatim>\<open>bond/ext/grpc/detail/service.h\<close>, which is not part of the sources. It arms one
  asynchronous accept for the method index against the queue, tagged with the tag; the
  completion comes later, from the event source, as a call of \<^verbatim>\<open>invoke\<close> on the tag.
\<close>

definition service_queue_receive ::
  "nat \<Rightarrow> 32 word \<Rightarrow> uc_member \<Rightarrow> uc_member \<Rightarrow> uc_member \<Rightarrow> ptr \<Rightarrow> nat \<Rightarrow> state \<Rightarrow> state" where
  "service_queue_receive svc mi ctx req resp q tag s =
     s\<lparr>events := events s @ [Service_queue_receive svc mi ctx req resp q tag]\<rparr>"

text \<open>
  Modelled from the spec: \<^verbatim>\<open>TThreadPool::schedule\<close>, a template parameter of the class.
  It enqueues the task for asynchronous, out-of-line execution and returns nothing.
  The call goes through the pointer \<^verbatim>\<open>_threadPool\<close>.
\<close>

definition threadPool_schedule :: "task \<Rightarrow> state \<Rightarrow> error + state" where
  "threadPool_schedule t s =
     (case threadPool (obj s) of
        None \<Rightarrow> Inl Null_dereference
      | Some tp \<Rightarrow>
          Inr (s\<lparr>events := events s @ [ThreadPool_schedule tp t],
                 pending_tasks := pending_tasks s @ [t]\<rparr>))"

subsection \<open>Member functions\<close>

text \<open>\<^verbatim>\<open>_receivedCall.release()\<close>: the pointer held, and the slot left empty.\<close>

definition release_receivedCall :: "state \<Rightarrow> ptr \<times> state" where
  "release_receivedCall s =
     (receivedCall (obj s), s\<lparr>obj := (obj s)\<lparr>receivedCall := None\<rparr>\<rparr>)"

text \<open>\<^verbatim>\<open>_receivedCall.reset(p)\<close>, called on an empty slot only (line 105).\<close>

definition reset_receivedCall :: "nat \<Rightarrow> state \<Rightarrow> state" where
  "reset_receivedCall p s = s\<lparr>obj := (obj s)\<lparr>receivedCall := Some p\<rparr>\<rparr>"

text \<open>\<^verbatim>\<open>queue_receive\<close>, lines 103 to 117.\<close>

definition queue_receive :: "state \<Rightarrow> error + state" where
  "queue_receive s =
     (case BOOST_ASSERT (receivedCall (obj s) = None) Assert_not_receivedCall of
        Inl e \<Rightarrow> Inl e
      | Inr _ \<Rightarrow>
          (let (p, s1) = new_uc_impl s;
               s2 = reset_receivedCall p s1
           in case receivedCall (obj s2) of
                None \<Rightarrow> Inl Null_dereference
              | Some r \<Rightarrow>
                  Inr (service_queue_receive (service (obj s2)) (methodIndex (obj s2))
                         (Context_of r) (Request_of r) (Responder_of r)
                         (cq (obj s2)) (this_addr s2) s2)))"

text \<open>\<^verbatim>\<open>invoke\<close>, lines 72 to 100.\<close>

definition invoke :: "bool \<Rightarrow> state \<Rightarrow> error + state" where
  "invoke ok s =
     (if ok then
        (let (rc, s1) = release_receivedCall s
         in case threadPool_schedule (Task (this_addr s1) rc) s1 of
              Inl e \<Rightarrow> Inl e
            | Inr s2 \<Rightarrow> queue_receive s2)
      else Inr s)"

text \<open>
  The constructor, lines 48 to 67, of the object at address \<open>this\<close>. The state it starts
  from has seen no call to a collaborator yet.
\<close>

definition construct :: "nat \<Rightarrow> nat \<Rightarrow> 32 word \<Rightarrow> ptr \<Rightarrow> ptr \<Rightarrow> callback \<Rightarrow> error + state" where
  "construct this svc mi q tp f =
     (let s = \<lparr>this_addr = this,
                obj = \<lparr>service = svc, methodIndex = mi, cq = q, threadPool = tp,
                       cb = f, receivedCall = None\<rparr>,
                uc_impl_created = 0, events = [], pending_tasks = []\<rparr>
      in case BOOST_ASSERT (cq (obj s) \<noteq> None) Assert_cq of
           Inl e \<Rightarrow> Inl e
         | Inr _ \<Rightarrow>
             (case BOOST_ASSERT (threadPool (obj s) \<noteq> None) Assert_threadPool of
                Inl e \<Rightarrow> Inl e
              | Inr _ \<Rightarrow>
                  (case BOOST_ASSERT (cb (obj s) \<noteq> None) Assert_cb of
                     Inl e \<Rightarrow> Inl e
                   | Inr _ \<Rightarrow> queue_receive s)))"

subsection \<open>The scheduled task and the environment\<close>

text \<open>
  The body of the closure, line 90: \<^verbatim>\<open>_cb(unary_call { std::move(receivedCall) })\<close>,
  where \<^verbatim>\<open>_cb\<close> is read through the captured \<^verbatim>\<open>this\<close>, the one object of the state.
\<close>

definition run_task :: "task \<Rightarrow> state \<Rightarrow> error + state" where
  "run_task t s =
     (case cb (obj s) of
        None \<Rightarrow> Inl Bad_function_call
      | Some f \<Rightarrow> Inr (s\<lparr>events := events s @ [Cb_call f (Unary_call (task_receivedCall t))]\<rparr>))"

text \<open>
  Modelled from the spec: the worker pool executes a scheduled task asynchronously,
  ordering and concurrency controlled by the pool. \<open>pool_run i\<close> is the pool taking the
  task at position \<open>i\<close> of those it holds and running it; a pool that holds no such task
  does nothing.
\<close>

definition pool_run :: "nat \<Rightarrow> state \<Rightarrow> error + state" where
  "pool_run i s =
     (if i < length (pending_tasks s)
      then run_task (pending_tasks s ! i)
             (s\<lparr>pending_tasks := take i (pending_tasks s) @ drop (Suc i) (pending_tasks s)\<rparr>)
      else Inr s)"

text \<open>
  What happens to the object after its construction: the event source calls
  \<^verbatim>\<open>invoke\<close>, and the pool runs a task.
\<close>

datatype action = Invoke bool | Pool_run nat

fun step :: "action \<Rightarrow> state \<Rightarrow> error + state" where
  "step (Invoke ok) s = invoke ok s"
| "step (Pool_run i) s = pool_run i s"

fun run :: "action list \<Rightarrow> state \<Rightarrow> error + state" where
  "run [] s = Inr s"
| "run (a # as) s = (case step a s of Inl e \<Rightarrow> Inl e | Inr s' \<Rightarrow> run as s')"

text \<open>The \<^verbatim>\<open>invoke\<close> calls among the actions, in order.\<close>

fun invokes :: "action list \<Rightarrow> bool list" where
  "invokes [] = []"
| "invokes (Invoke ok # as) = ok # invokes as"
| "invokes (Pool_run i # as) = invokes as"

text \<open>The constructor, and then the actions on the object it made.\<close>

definition construct_and_run ::
  "nat \<Rightarrow> nat \<Rightarrow> 32 word \<Rightarrow> ptr \<Rightarrow> ptr \<Rightarrow> callback \<Rightarrow> action list \<Rightarrow> error + state" where
  "construct_and_run this svc mi q tp f as =
     (case construct this svc mi q tp f of Inl e \<Rightarrow> Inl e | Inr s \<Rightarrow> run as s)"

subsection \<open>Observations on the calls made\<close>

fun is_arm :: "event \<Rightarrow> bool" where
  "is_arm (Service_queue_receive svc mi ctx req resp q tag) = True"
| "is_arm e = False"

fun is_schedule :: "event \<Rightarrow> bool" where
  "is_schedule (ThreadPool_schedule tp t) = True"
| "is_schedule e = False"

text \<open>The number of \<^verbatim>\<open>_service.queue_receive\<close> calls and of \<^verbatim>\<open>schedule\<close> calls so far.\<close>

definition arm_count :: "state \<Rightarrow> nat" where
  "arm_count s = length (filter is_arm (events s))"

definition task_count :: "state \<Rightarrow> nat" where
  "task_count s = length (filter is_schedule (events s))"

text \<open>The method index each \<^verbatim>\<open>_service.queue_receive\<close> call carried, in order.\<close>

fun arm_methodIndex :: "event \<Rightarrow> 32 word option" where
  "arm_methodIndex (Service_queue_receive svc mi ctx req resp q tag) = Some mi"
| "arm_methodIndex e = None"

definition armed_indices :: "state \<Rightarrow> 32 word list" where
  "armed_indices s = List.map_filter arm_methodIndex (events s)"

text \<open>The pointer each task given to the pool captured, in order.\<close>

fun schedule_receivedCall :: "event \<Rightarrow> ptr option" where
  "schedule_receivedCall (ThreadPool_schedule tp t) = Some (task_receivedCall t)"
| "schedule_receivedCall e = None"

definition detached :: "state \<Rightarrow> ptr list" where
  "detached s = List.map_filter schedule_receivedCall (events s)"

subsection \<open>The invariant of a constructed object\<close>

text \<open>
  Between two actions the thread pool and the callback are there, the slot holds the
  \<^verbatim>\<open>unary_call_impl\<close> created last, and every task given to the pool captured one
  created before it.
\<close>

definition older :: "nat \<Rightarrow> ptr \<Rightarrow> bool" where
  "older p r = (case r of None \<Rightarrow> False | Some q \<Rightarrow> q < p)"

definition armed :: "state \<Rightarrow> bool" where
  "armed s =
     (threadPool (obj s) \<noteq> None \<and> cb (obj s) \<noteq> None \<and>
      (case receivedCall (obj s) of
         None \<Rightarrow> False
       | Some p \<Rightarrow> uc_impl_created s = Suc p \<and> list_all (older p) (detached s)))"

text \<open>What no member function assigns: the address of the object and its wiring.\<close>

definition same_wiring :: "state \<Rightarrow> state \<Rightarrow> bool" where
  "same_wiring s s' =
     (this_addr s' = this_addr s \<and> service (obj s') = service (obj s) \<and>
      methodIndex (obj s') = methodIndex (obj s) \<and> cq (obj s') = cq (obj s) \<and>
      threadPool (obj s') = threadPool (obj s) \<and> cb (obj s') = cb (obj s))"

section \<open>Properties\<close>

subsection \<open>What each operation computes\<close>

lemma construct_eq:
  "construct this svc mi q tp f =
     (if q = None then Inl (Assertion_failed Assert_cq)
      else if tp = None then Inl (Assertion_failed Assert_threadPool)
      else if f = None then Inl (Assertion_failed Assert_cb)
      else Inr \<lparr>this_addr = this,
                 obj = \<lparr>service = svc, methodIndex = mi, cq = q, threadPool = tp,
                        cb = f, receivedCall = Some 0\<rparr>,
                 uc_impl_created = Suc 0,
                 events = [New_uc_impl 0,
                           Service_queue_receive svc mi (Context_of 0) (Request_of 0)
                             (Responder_of 0) q this],
                 pending_tasks = []\<rparr>)"
  by (simp add: construct_def BOOST_ASSERT_def queue_receive_def new_uc_impl_def
      reset_receivedCall_def service_queue_receive_def)

lemma queue_receive_empty:
  "receivedCall (obj s) = None \<Longrightarrow>
   queue_receive s =
     Inr (s\<lparr>obj := (obj s)\<lparr>receivedCall := Some (uc_impl_created s)\<rparr>,
            uc_impl_created := Suc (uc_impl_created s),
            events := events s @
              [New_uc_impl (uc_impl_created s),
               Service_queue_receive (service (obj s)) (methodIndex (obj s))
                 (Context_of (uc_impl_created s)) (Request_of (uc_impl_created s))
                 (Responder_of (uc_impl_created s)) (cq (obj s)) (this_addr s)]\<rparr>)"
  by (simp add: BOOST_ASSERT_def queue_receive_def new_uc_impl_def
      reset_receivedCall_def service_queue_receive_def)

lemma queue_receive_pending:
  "receivedCall (obj s) \<noteq> None \<Longrightarrow>
   queue_receive s = Inl (Assertion_failed Assert_not_receivedCall)"
  by (auto simp add: BOOST_ASSERT_def queue_receive_def)

lemma invoke_true_eq:
  "threadPool (obj s) = Some tp \<Longrightarrow>
   invoke True s =
     Inr (s\<lparr>obj := (obj s)\<lparr>receivedCall := Some (uc_impl_created s)\<rparr>,
            uc_impl_created := Suc (uc_impl_created s),
            events := events s @
              [ThreadPool_schedule tp (Task (this_addr s) (receivedCall (obj s))),
               New_uc_impl (uc_impl_created s),
               Service_queue_receive (service (obj s)) (methodIndex (obj s))
                 (Context_of (uc_impl_created s)) (Request_of (uc_impl_created s))
                 (Responder_of (uc_impl_created s)) (cq (obj s)) (this_addr s)],
            pending_tasks := pending_tasks s @ [Task (this_addr s) (receivedCall (obj s))]\<rparr>)"
  by (simp add: invoke_def release_receivedCall_def threadPool_schedule_def queue_receive_empty)

lemma invoke_false_eq: "invoke False s = Inr s"
  by (simp add: invoke_def)

lemma pool_run_eq:
  "cb (obj s) = Some f \<Longrightarrow>
   pool_run i s =
     (if i < length (pending_tasks s)
      then Inr (s\<lparr>pending_tasks := take i (pending_tasks s) @ drop (Suc i) (pending_tasks s),
                  events := events s @
                    [Cb_call f (Unary_call (task_receivedCall (pending_tasks s ! i)))]\<rparr>)
      else Inr s)"
  by (simp add: pool_run_def run_task_def)

subsection \<open>The invariant holds after construction and after every action\<close>

lemma older_less: "older p r \<Longrightarrow> p < p' \<Longrightarrow> older p' r"
  by (auto simp add: older_def split: option.splits)

lemma list_all_older_less:
  "list_all (older p) rs \<Longrightarrow> p < p' \<Longrightarrow> list_all (older p') rs"
  by (induction rs) (auto intro: older_less)

lemma older_not_member: "list_all (older p) rs \<Longrightarrow> Some p \<notin> set rs"
  by (induction rs) (auto simp add: older_def)

lemma same_wiring_refl: "same_wiring s s"
  by (simp add: same_wiring_def)

lemma same_wiring_trans: "same_wiring s s1 \<Longrightarrow> same_wiring s1 s2 \<Longrightarrow> same_wiring s s2"
  by (simp add: same_wiring_def)

lemma armed_construct:
  "construct this svc mi q tp f = Inr s \<Longrightarrow> armed s"
  by (auto simp add: construct_eq armed_def detached_def List.map_filter_def
      split: if_splits)

lemma armed_invoke_true:
  assumes "armed s"
  shows "\<exists>s'. invoke True s = Inr s' \<and> armed s' \<and> same_wiring s s' \<and>
           task_count s' = Suc (task_count s) \<and> arm_count s' = Suc (arm_count s) \<and>
           armed_indices s' = armed_indices s @ [methodIndex (obj s)]"
proof -
  from assms obtain tp p where tp: "threadPool (obj s) = Some tp"
    and p: "receivedCall (obj s) = Some p" "uc_impl_created s = Suc p"
      "list_all (older p) (detached s)"
    by (auto simp add: armed_def split: option.splits)
  from p(3) have "list_all (older (Suc p)) (detached s)"
    by (rule list_all_older_less) simp
  with assms tp p show ?thesis
    by (simp add: invoke_true_eq [OF tp] armed_def detached_def task_count_def
        arm_count_def armed_indices_def List.map_filter_def older_def same_wiring_def)
qed

lemma armed_pool_run:
  assumes "armed s"
  shows "\<exists>s'. pool_run i s = Inr s' \<and> armed s' \<and> same_wiring s s' \<and>
           task_count s' = task_count s \<and> arm_count s' = arm_count s \<and>
           armed_indices s' = armed_indices s"
proof -
  from assms obtain f where f: "cb (obj s) = Some f"
    by (auto simp add: armed_def)
  with assms show ?thesis
    by (auto simp add: pool_run_eq [OF f] armed_def detached_def task_count_def
        arm_count_def armed_indices_def List.map_filter_def same_wiring_def
        split: option.splits)
qed

lemma armed_step:
  assumes "armed s"
  shows "\<exists>s'. step a s = Inr s' \<and> armed s' \<and> same_wiring s s' \<and>
           task_count s' = task_count s + count_list (invokes [a]) True \<and>
           arm_count s' = arm_count s + count_list (invokes [a]) True \<and>
           armed_indices s' =
             armed_indices s @ replicate (count_list (invokes [a]) True) (methodIndex (obj s))"
proof (cases a)
  case (Invoke ok)
  show ?thesis
  proof (cases ok)
    case True
    with Invoke armed_invoke_true [OF assms] show ?thesis by auto
  next
    case False
    with Invoke assms show ?thesis by (simp add: invoke_def same_wiring_refl)
  qed
next
  case (Pool_run i)
  with armed_pool_run [OF assms, of i] show ?thesis by auto
qed

lemma invokes_Cons: "invokes (a # as) = invokes [a] @ invokes as"
  by (cases a) simp_all

lemma armed_run:
  assumes "armed s"
  shows "\<exists>s'. run as s = Inr s' \<and> armed s' \<and> same_wiring s s' \<and>
           task_count s' = task_count s + count_list (invokes as) True \<and>
           arm_count s' = arm_count s + count_list (invokes as) True \<and>
           armed_indices s' =
             armed_indices s @ replicate (count_list (invokes as) True) (methodIndex (obj s))"
  using assms
proof (induction as arbitrary: s)
  case Nil
  then show ?case by (simp add: same_wiring_refl)
next
  case (Cons a as)
  from armed_step [OF Cons.prems, of a] obtain s1 where s1: "step a s = Inr s1" "armed s1"
    "same_wiring s s1"
    "task_count s1 = task_count s + count_list (invokes [a]) True"
    "arm_count s1 = arm_count s + count_list (invokes [a]) True"
    "armed_indices s1 =
       armed_indices s @ replicate (count_list (invokes [a]) True) (methodIndex (obj s))"
    by blast
  from Cons.IH [OF s1(2)] obtain s2 where s2: "run as s1 = Inr s2" "armed s2"
    "same_wiring s1 s2"
    "task_count s2 = task_count s1 + count_list (invokes as) True"
    "arm_count s2 = arm_count s1 + count_list (invokes as) True"
    "armed_indices s2 =
       armed_indices s1 @ replicate (count_list (invokes as) True) (methodIndex (obj s1))"
    by blast
  have c: "count_list (invokes (a # as)) True =
      count_list (invokes [a]) True + count_list (invokes as) True"
    by (subst invokes_Cons) simp
  have m: "methodIndex (obj s1) = methodIndex (obj s)"
    using s1(3) by (simp add: same_wiring_def)
  from s1 s2 same_wiring_trans [OF s1(3) s2(3)] show ?case
    by (simp add: c m replicate_add)
qed

lemma count_list_replicate_other: "x \<noteq> y \<Longrightarrow> count_list (replicate n x) y = 0"
  by (induction n) simp_all

lemma count_list_replicate_same: "count_list (replicate n x) x = n"
  by (induction n) simp_all

subsection \<open>The claims\<close>

text \<open>
  C1. On a freshly constructed object, a sequence of actions whose \<^verbatim>\<open>invoke\<close> calls are
  exactly \<open>N\<close> calls \<^verbatim>\<open>invoke(true)\<close> runs to its end, and then exactly \<open>N\<close> tasks have
  been given to the thread pool and exactly \<open>N + 1\<close> calls of \<^verbatim>\<open>_service.queue_receive\<close>
  have been made: the one of the constructor and one for each \<^verbatim>\<open>invoke(true)\<close>. The pool
  may run its tasks at any point in between.
\<close>

theorem invoke_true_counts:
  assumes "construct this svc mi q tp f = Inr s0" and "invokes as = replicate N True"
  shows "\<exists>s. run as s0 = Inr s \<and> task_count s = N \<and> arm_count s = N + 1"
proof -
  from assms(1) have s0: "task_count s0 = 0" "arm_count s0 = 1"
    by (auto simp add: construct_eq task_count_def arm_count_def split: if_splits)
  from armed_run [OF armed_construct [OF assms(1)], of as] s0 assms(2) show ?thesis
    by (auto simp add: count_list_replicate_same)
qed

theorem invoke_true_counts_witness:
  "\<exists>s0 s. construct 100 1 3 (Some 2) (Some 4) (Some 5) = Inr s0 \<and>
     invokes [Invoke True, Pool_run 0, Invoke True, Invoke True] = replicate 3 True \<and>
     run [Invoke True, Pool_run 0, Invoke True, Invoke True] s0 = Inr s \<and>
     task_count s = 3 \<and> arm_count s = 3 + 1"
proof -
  obtain s0 where c: "construct 100 1 3 (Some 2) (Some 4) (Some 5) = Inr s0"
    by (simp add: construct_eq)
  have i: "invokes [Invoke True, Pool_run 0, Invoke True, Invoke True] = replicate 3 True"
    by (simp add: numeral_3_eq_3)
  from invoke_true_counts [OF c i] c i show ?thesis by blast
qed

text \<open>
  C2, as the code has it. After \<^verbatim>\<open>invoke(false)\<close> on a constructed object, in any state
  it can reach, no call of \<^verbatim>\<open>_service.queue_receive\<close> is made and no task is given to the
  pool for as long as every further \<^verbatim>\<open>invoke\<close> call is \<^verbatim>\<open>invoke(false)\<close> too.
\<close>

theorem no_arm_while_invoke_false:
  assumes "construct this svc mi q tp f = Inr s0" and "run as1 s0 = Inr s1"
    and "invokes as2 = replicate n False"
  shows "\<exists>s2. run (Invoke False # as2) s1 = Inr s2 \<and>
           arm_count s2 = arm_count s1 \<and> task_count s2 = task_count s1"
proof -
  from armed_run [OF armed_construct [OF assms(1)], of as1] assms(2) have "armed s1"
    by auto
  from armed_run [OF this, of as2] assms(3) show ?thesis
    by (auto simp add: invoke_false_eq count_list_replicate_other)
qed

theorem no_arm_while_invoke_false_witness:
  "\<exists>s0 s1 s2. construct 100 1 3 (Some 2) (Some 4) (Some 5) = Inr s0 \<and>
     run [Invoke True] s0 = Inr s1 \<and>
     invokes [Invoke False, Pool_run 0, Invoke False] = replicate 2 False \<and>
     run (Invoke False # [Invoke False, Pool_run 0, Invoke False]) s1 = Inr s2 \<and>
     arm_count s2 = arm_count s1 \<and> task_count s2 = task_count s1"
proof -
  obtain s0 where c: "construct 100 1 3 (Some 2) (Some 4) (Some 5) = Inr s0"
    by (simp add: construct_eq)
  from armed_run [OF armed_construct [OF c], of "[Invoke True]"]
  obtain s1 where r: "run [Invoke True] s0 = Inr s1" by blast
  have i: "invokes [Invoke False, Pool_run 0, Invoke False] = replicate 2 False"
    by (simp add: numeral_2_eq_2)
  from no_arm_while_invoke_false [OF c r i] c r i show ?thesis by blast
qed

text \<open>
  C2 as stated does not hold: \<^verbatim>\<open>invoke(false)\<close> records nothing in the object, so an
  \<^verbatim>\<open>invoke(true)\<close> after it releases the record still held, schedules a task and arms
  again. Below, one arm and no task after \<^verbatim>\<open>invoke(false)\<close>, two arms and one task after
  the \<^verbatim>\<open>invoke(true)\<close> that follows it.
\<close>

theorem rearm_after_invoke_false:
  "map_sum id arm_count
     (construct_and_run 100 1 3 (Some 2) (Some 4) (Some 5) [Invoke False]) = Inr 1 \<and>
   map_sum id arm_count
     (construct_and_run 100 1 3 (Some 2) (Some 4) (Some 5) [Invoke False, Invoke True]) = Inr 2 \<and>
   map_sum id task_count
     (construct_and_run 100 1 3 (Some 2) (Some 4) (Some 5) [Invoke False]) = Inr 0 \<and>
   map_sum id task_count
     (construct_and_run 100 1 3 (Some 2) (Some 4) (Some 5) [Invoke False, Invoke True]) = Inr 1"
  by (simp add: construct_and_run_def construct_eq invoke_false_eq invoke_true_eq
      arm_count_def task_count_def)

text \<open>
  C3, as the code has it. Between two \<^verbatim>\<open>invoke\<close> calls, in every state a constructed
  object can reach, \<^verbatim>\<open>_receivedCall\<close> holds exactly one record, also after
  \<^verbatim>\<open>invoke(false)\<close>, which keeps the armed record. The slot is empty only inside
  \<^verbatim>\<open>invoke(true)\<close>, between the release and the next \<^verbatim>\<open>queue_receive\<close>.
\<close>

theorem one_pending_between_invokes:
  assumes "construct this svc mi q tp f = Inr s0"
  shows "\<exists>s p. run as s0 = Inr s \<and> receivedCall (obj s) = Some p \<and>
           receivedCall (obj (snd (release_receivedCall s))) = None"
proof -
  from armed_run [OF armed_construct [OF assms], of as] show ?thesis
    by (auto simp add: armed_def release_receivedCall_def split: option.splits)
qed

theorem one_pending_between_invokes_witness:
  "\<exists>s0 s p. construct 100 1 3 (Some 2) (Some 4) (Some 5) = Inr s0 \<and>
     run [Invoke True, Invoke False, Pool_run 0] s0 = Inr s \<and>
     receivedCall (obj s) = Some p \<and>
     receivedCall (obj (snd (release_receivedCall s))) = None"
proof -
  obtain s0 where c: "construct 100 1 3 (Some 2) (Some 4) (Some 5) = Inr s0"
    by (simp add: construct_eq)
  from one_pending_between_invokes [OF c] c show ?thesis by blast
qed

text \<open>
  C3 as stated does not hold: after \<^verbatim>\<open>invoke(false)\<close> the slot is not empty, it still
  holds the record the constructor armed.
\<close>

theorem slot_retained_after_invoke_false:
  "map_sum id (receivedCall \<circ> obj)
     (construct_and_run 100 1 3 (Some 2) (Some 4) (Some 5) [Invoke False]) = Inr (Some 0)"
  by (simp add: construct_and_run_def construct_eq invoke_false_eq)

text \<open>
  C4. The constructor ends in a failed assertion exactly when the completion queue is
  null, the thread pool is null or the callback is empty, and it returns an object
  exactly when none of them is; in that case no assertion fires, neither one of the three
  of the constructor nor the one of the \<^verbatim>\<open>queue_receive\<close> it calls. The assertions are
  checked in the order queue, pool, callback.
\<close>

theorem construct_preconditions:
  "((\<exists>a. construct this svc mi q tp f = Inl (Assertion_failed a)) \<longleftrightarrow>
      (q = None \<or> tp = None \<or> f = None)) \<and>
   ((\<exists>s. construct this svc mi q tp f = Inr s) \<longleftrightarrow>
      (q \<noteq> None \<and> tp \<noteq> None \<and> f \<noteq> None)) \<and>
   construct this svc mi None tp f = Inl (Assertion_failed Assert_cq) \<and>
   construct this svc mi (Some c) None f = Inl (Assertion_failed Assert_threadPool) \<and>
   construct this svc mi (Some c) (Some p) None = Inl (Assertion_failed Assert_cb)"
  by (simp add: construct_eq)

text \<open>
  C5. When the constructor returns, it has created one \<^verbatim>\<open>unary_call_impl\<close>, made exactly
  one call of \<^verbatim>\<open>_service.queue_receive\<close>, for the method index, the queue and the object
  itself as the tag, and the object holds that record as its pending one. Nothing else
  has to be called before the first \<^verbatim>\<open>invoke\<close>.
\<close>

theorem construct_arms_once:
  assumes "construct this svc mi q tp f = Inr s"
  shows "arm_count s = 1 \<and> receivedCall (obj s) = Some 0 \<and> uc_impl_created s = 1 \<and>
         events s = [New_uc_impl 0,
                     Service_queue_receive svc mi (Context_of 0) (Request_of 0)
                       (Responder_of 0) q this]"
  using assms
  by (auto simp add: construct_eq arm_count_def split: if_splits)

theorem construct_arms_once_witness:
  "\<exists>s. construct 100 1 3 (Some 2) (Some 4) (Some 5) = Inr s \<and>
     arm_count s = 1 \<and> receivedCall (obj s) = Some 0 \<and> uc_impl_created s = 1 \<and>
     events s = [New_uc_impl 0,
                 Service_queue_receive 1 3 (Context_of 0) (Request_of 0)
                   (Responder_of 0) (Some 2) 100]"
proof -
  obtain s where c: "construct 100 1 3 (Some 2) (Some 4) (Some 5) = Inr s"
    by (simp add: construct_eq)
  from construct_arms_once [OF c] c show ?thesis by blast
qed

text \<open>
  C6. \<^verbatim>\<open>queue_receive\<close> on an object that holds a pending record fails its assertion. On
  an object that holds none it returns; then the object holds the record just created,
  exactly one call of \<^verbatim>\<open>_service.queue_receive\<close> has been added, with the method index
  and the queue of the object, the addresses of the members of the new record, and the
  object as the tag; no task has been scheduled and no other member has changed.
\<close>

theorem queue_receive_contract:
  "(receivedCall (obj s) \<noteq> None \<longrightarrow>
      queue_receive s = Inl (Assertion_failed Assert_not_receivedCall)) \<and>
   (receivedCall (obj s) = None \<longrightarrow>
      (\<exists>s'. queue_receive s = Inr s' \<and>
         receivedCall (obj s') = Some (uc_impl_created s) \<and>
         uc_impl_created s' = Suc (uc_impl_created s) \<and>
         events s' = events s @
           [New_uc_impl (uc_impl_created s),
            Service_queue_receive (service (obj s)) (methodIndex (obj s))
              (Context_of (uc_impl_created s)) (Request_of (uc_impl_created s))
              (Responder_of (uc_impl_created s)) (cq (obj s)) (this_addr s)] \<and>
         arm_count s' = Suc (arm_count s) \<and> task_count s' = task_count s \<and>
         pending_tasks s' = pending_tasks s \<and> same_wiring s s'))"
  by (simp add: queue_receive_pending queue_receive_empty arm_count_def task_count_def
      same_wiring_def)

theorem queue_receive_contract_witness:
  "queue_receive
     \<lparr>this_addr = 100,
      obj = \<lparr>service = 1, methodIndex = 3, cq = Some 2, threadPool = Some 4,
             cb = Some 5, receivedCall = Some 0\<rparr>,
      uc_impl_created = 1, events = [], pending_tasks = []\<rparr>
     = Inl (Assertion_failed Assert_not_receivedCall) \<and>
   queue_receive
     \<lparr>this_addr = 100,
      obj = \<lparr>service = 1, methodIndex = 3, cq = Some 2, threadPool = Some 4,
             cb = Some 5, receivedCall = None\<rparr>,
      uc_impl_created = 1, events = [], pending_tasks = []\<rparr>
     = Inr \<lparr>this_addr = 100,
            obj = \<lparr>service = 1, methodIndex = 3, cq = Some 2, threadPool = Some 4,
                   cb = Some 5, receivedCall = Some 1\<rparr>,
            uc_impl_created = 2,
            events = [New_uc_impl 1,
                      Service_queue_receive 1 3 (Context_of 1) (Request_of 1)
                        (Responder_of 1) (Some 2) 100],
            pending_tasks = []\<rparr>"
  using queue_receive_contract
    [of "\<lparr>this_addr = 100,
         obj = \<lparr>service = 1, methodIndex = 3, cq = Some 2, threadPool = Some 4,
                cb = Some 5, receivedCall = Some 0\<rparr>,
         uc_impl_created = 1, events = [], pending_tasks = []\<rparr>"]
    queue_receive_contract
    [of "\<lparr>this_addr = 100,
         obj = \<lparr>service = 1, methodIndex = 3, cq = Some 2, threadPool = Some 4,
                cb = Some 5, receivedCall = None\<rparr>,
         uc_impl_created = 1, events = [], pending_tasks = []\<rparr>"]
  by (auto simp add: same_wiring_def)

text \<open>
  C7. In every state \<open>s\<close> a constructed object can reach, \<^verbatim>\<open>invoke(true)\<close> returns and
  has done, in this order: the release of the pending record \<open>p\<close>, which leaves the slot
  empty; one \<^verbatim>\<open>schedule\<close> call with a task that captured the object and \<open>p\<close>; the
  creation of a new record, different from \<open>p\<close>; and one \<^verbatim>\<open>_service.queue_receive\<close> call
  for the new record, with the method index, the queue and the tag of the constructor.
  When \<^verbatim>\<open>invoke\<close> returns the object is armed again and the task is still waiting in the
  pool: it was not run, and nothing in \<^verbatim>\<open>invoke\<close> depends on its running. When it is
  run, it calls the callback with the \<^verbatim>\<open>unary_call\<close> made from \<open>p\<close>.
\<close>

theorem invoke_true_order:
  assumes "construct this svc mi q tp f = Inr s0" and "run as s0 = Inr s"
  shows "\<exists>pool g p s'.
           tp = Some pool \<and> f = Some g \<and> receivedCall (obj s) = Some p \<and>
           fst (release_receivedCall s) = Some p \<and>
           receivedCall (obj (snd (release_receivedCall s))) = None \<and>
           invoke True s = Inr s' \<and>
           events s' = events s @
             [ThreadPool_schedule pool (Task this (Some p)),
              New_uc_impl (uc_impl_created s),
              Service_queue_receive svc mi
                (Context_of (uc_impl_created s)) (Request_of (uc_impl_created s))
                (Responder_of (uc_impl_created s)) q this] \<and>
           pending_tasks s' = pending_tasks s @ [Task this (Some p)] \<and>
           receivedCall (obj s') = Some (uc_impl_created s) \<and>
           uc_impl_created s \<noteq> p \<and>
           run_task (Task this (Some p)) s' =
             Inr (s'\<lparr>events := events s' @ [Cb_call g (Unary_call (Some p))]\<rparr>)"
proof -
  from assms(1) have w0: "this_addr s0 = this" "service (obj s0) = svc"
    "methodIndex (obj s0) = mi" "cq (obj s0) = q" "threadPool (obj s0) = tp" "cb (obj s0) = f"
    by (auto simp add: construct_eq split: if_splits)
  from armed_run [OF armed_construct [OF assms(1)], of as] assms(2)
  have a: "armed s" and w: "same_wiring s0 s"
    by auto
  from w w0 have ws: "this_addr s = this" "service (obj s) = svc"
    "methodIndex (obj s) = mi" "cq (obj s) = q" "threadPool (obj s) = tp" "cb (obj s) = f"
    by (auto simp add: same_wiring_def)
  from a ws obtain pool g p where o: "tp = Some pool" "f = Some g"
    "receivedCall (obj s) = Some p" "uc_impl_created s = Suc p"
    by (auto simp add: armed_def split: option.splits)
  from o(1) ws(5) have tp: "threadPool (obj s) = Some pool"
    by simp
  from o ws show ?thesis
    by (simp add: invoke_true_eq [OF tp] release_receivedCall_def run_task_def)
qed

theorem invoke_true_order_witness:
  "\<exists>s0 s pool g p s'.
     construct 100 1 3 (Some 2) (Some 4) (Some 5) = Inr s0 \<and>
     run [Invoke True, Pool_run 0] s0 = Inr s \<and>
     Some 4 = Some pool \<and> Some 5 = Some g \<and> receivedCall (obj s) = Some p \<and>
     fst (release_receivedCall s) = Some p \<and>
     receivedCall (obj (snd (release_receivedCall s))) = None \<and>
     invoke True s = Inr s' \<and>
     events s' = events s @
       [ThreadPool_schedule pool (Task 100 (Some p)),
        New_uc_impl (uc_impl_created s),
        Service_queue_receive 1 3
          (Context_of (uc_impl_created s)) (Request_of (uc_impl_created s))
          (Responder_of (uc_impl_created s)) (Some 2) 100] \<and>
     pending_tasks s' = pending_tasks s @ [Task 100 (Some p)] \<and>
     receivedCall (obj s') = Some (uc_impl_created s) \<and>
     uc_impl_created s \<noteq> p \<and>
     run_task (Task 100 (Some p)) s' =
       Inr (s'\<lparr>events := events s' @ [Cb_call g (Unary_call (Some p))]\<rparr>)"
proof -
  obtain s0 where c: "construct 100 1 3 (Some 2) (Some 4) (Some 5) = Inr s0"
    by (simp add: construct_eq)
  from armed_run [OF armed_construct [OF c], of "[Invoke True, Pool_run 0]"]
  obtain s where r: "run [Invoke True, Pool_run 0] s0 = Inr s" by blast
  from invoke_true_order [OF c r] c r show ?thesis by blast
qed

text \<open>
  C8. After any sequence of actions on a constructed object, the method index of the
  object is the one given to the constructor, and every \<^verbatim>\<open>_service.queue_receive\<close> call
  made so far (there is at least one) carried that method index.
\<close>

theorem methodIndex_passed_through:
  assumes "construct this svc mi q tp f = Inr s0"
  shows "\<exists>s. run as s0 = Inr s \<and> methodIndex (obj s) = mi \<and>
           armed_indices s = replicate (arm_count s) mi \<and> 0 < arm_count s"
proof -
  from assms have s0: "methodIndex (obj s0) = mi" "armed_indices s0 = [mi]" "arm_count s0 = 1"
    by (auto simp add: construct_eq armed_indices_def arm_count_def List.map_filter_def
        split: if_splits)
  from armed_run [OF armed_construct [OF assms], of as] s0 show ?thesis
    by (auto simp add: same_wiring_def replicate_append_same)
qed

theorem methodIndex_passed_through_witness:
  "\<exists>s0 s. construct 100 1 3 (Some 2) (Some 4) (Some 5) = Inr s0 \<and>
     run [Invoke True, Invoke False, Invoke True, Pool_run 1] s0 = Inr s \<and>
     methodIndex (obj s) = 3 \<and>
     armed_indices s = replicate (arm_count s) 3 \<and> 0 < arm_count s"
proof -
  obtain s0 where c: "construct 100 1 3 (Some 2) (Some 4) (Some 5) = Inr s0"
    by (simp add: construct_eq)
  from methodIndex_passed_through [OF c] c show ?thesis by blast
qed

text \<open>Every task given to the pool captured one pointer.\<close>

lemma length_map_filter_schedule:
  "length (List.map_filter schedule_receivedCall es) = length (filter is_schedule es)"
proof (induction es)
  case Nil
  then show ?case by (simp add: List.map_filter_def)
next
  case (Cons e es)
  then show ?case by (cases e) (simp_all add: List.map_filter_def)
qed

lemma length_detached: "length (detached s) = task_count s"
  by (simp add: detached_def task_count_def length_map_filter_schedule)

text \<open>
  C9. After any sequence of actions on a constructed object, the object holds one
  pending record, the one created last, and no task given to the pool so far captured
  that record: the record armed for the next call is none of the records handed to a
  callback.
\<close>

theorem pending_not_detached:
  assumes "construct this svc mi q tp f = Inr s0"
  shows "\<exists>s p. run as s0 = Inr s \<and> receivedCall (obj s) = Some p \<and>
           uc_impl_created s = Suc p \<and> Some p \<notin> set (detached s) \<and>
           length (detached s) = task_count s"
proof -
  from armed_run [OF armed_construct [OF assms], of as]
  obtain s where s: "run as s0 = Inr s" "armed s"
    by blast
  from s(2) obtain p where p: "receivedCall (obj s) = Some p" "uc_impl_created s = Suc p"
    "list_all (older p) (detached s)"
    by (auto simp add: armed_def split: option.splits)
  from s(1) p older_not_member [OF p(3)] length_detached [of s] show ?thesis
    by simp
qed

theorem pending_not_detached_witness:
  "\<exists>s0 s p. construct 100 1 3 (Some 2) (Some 4) (Some 5) = Inr s0 \<and>
     run [Invoke True, Pool_run 0, Invoke True] s0 = Inr s \<and>
     receivedCall (obj s) = Some p \<and>
     uc_impl_created s = Suc p \<and> Some p \<notin> set (detached s) \<and>
     length (detached s) = task_count s"
proof -
  obtain s0 where c: "construct 100 1 3 (Some 2) (Some 4) (Some 5) = Inr s0"
    by (simp add: construct_eq)
  from pending_not_detached [OF c] c show ?thesis by blast
qed

text \<open>
  C10. \<^verbatim>\<open>invoke(false)\<close> returns normally and leaves everything as it was: every data
  member of the object (service, method index, completion queue, thread pool, callback
  and the pending \<^verbatim>\<open>_receivedCall\<close>, which is neither released nor dispatched), and also
  the calls made so far and the tasks the pool holds.
\<close>

theorem invoke_false_unchanged: "invoke False s = Inr s"
  by (simp add: invoke_def)

end
